theory Spec2Isabelle
  imports Main "HOL-Library.AList"
begin

section \<open>The Monty execution bridge (monty\_rlm.py)\<close>

text \<open>
  The development embeds \<^verbatim>\<open>MontyCodeInterpreter.execute\<close>: one turn of sandboxed
  execution, driven through the suspend/resume protocol of the sandbox, with the reserved
  callables SAVE, CLEAR and SUBMIT and the persistent state store \<^verbatim>\<open>self._state\<close>.

  Python dictionaries keep insertion order, and the order is observable (the confirmation
  string of SAVE lists \<^verbatim>\<open>kwargs.keys()\<close>, the sandbox receives \<^verbatim>\<open>list(merged_vars)\<close>),
  so a dictionary is an association list; \<open>map_of\<close> reads it as a mapping.
\<close>

subsection \<open>Values and dictionaries\<close>

datatype pyval = PNone | PBool bool | PInt int | PStr string | PList "pyval list"

type_synonym dict = "(string \<times> pyval) list"

text \<open>\<^verbatim>\<open>d[k] = v\<close> is \<open>AList.update k v d\<close>: an existing key keeps its position, a new
  key goes to the end. \<^verbatim>\<open>d.update(other)\<close> stores the items of \<open>other\<close> one by one.\<close>

definition dict_update :: "('k \<times> 'v) list \<Rightarrow> ('k \<times> 'v) list \<Rightarrow> ('k \<times> 'v) list" where
  "dict_update d other = fold (\<lambda>(k, v) acc. AList.update k v acc) other d"

text \<open>\<^verbatim>\<open>d.setdefault(k, v)\<close>: binds \<open>k\<close> only when it is absent.\<close>

definition setdefault :: "'k \<Rightarrow> 'v \<Rightarrow> ('k \<times> 'v) list \<Rightarrow> ('k \<times> 'v) list" where
  "setdefault k v d = (if k \<in> set (map fst d) then d else d @ [(k, v)])"

text \<open>\<^verbatim>\<open>sep.join(xs)\<close> on strings.\<close>

fun join :: "string \<Rightarrow> string list \<Rightarrow> string" where
  "join sep [] = []"
| "join sep [x] = x"
| "join sep (x # y # ys) = x @ sep @ join sep (y # ys)"

subsection \<open>Errors and results of a turn\<close>

text \<open>The exceptions that leave \<^verbatim>\<open>execute\<close>: the two it raises itself, and the
  \<^verbatim>\<open>KeyError\<close> of \<^verbatim>\<open>f["name"]\<close> on a field descriptor without that key.\<close>

datatype error = SyntaxError string | CodeInterpreterError string | KeyError string

text \<open>What \<^verbatim>\<open>execute\<close> returns: the joined text, \<^verbatim>\<open>None\<close>, or a \<^verbatim>\<open>FinalOutput\<close>.\<close>

datatype turn_result = PyStr string | PyNone | FinalOutput dict

text \<open>A \<^verbatim>\<open>TypeError\<close> raised by the Python runtime inside a reserved callable. Its text
  is the runtime's, not the repository's, so \<^verbatim>\<open>str(e)\<close> is a parameter \<open>texc\<close> of the
  model.\<close>

datatype type_error =
    PositionalArgs string nat
  | UnexpectedKeyword string string
  | Unhashable pyval
  | JoinItem nat pyval

subsection \<open>The sandbox session (pydantic\_monty), as the bridge uses it\<close>

text \<open>\<^verbatim>\<open>pydantic_monty.Monty(...)\<close> raises \<^verbatim>\<open>MontySyntaxError\<close> or
  \<^verbatim>\<open>MontyTypingError\<close>; \<^verbatim>\<open>start\<close> and \<^verbatim>\<open>resume\<close> raise \<^verbatim>\<open>MontyRuntimeError\<close>
  (here \<open>Inl\<close> of its \<^verbatim>\<open>str\<close>) or return a progress object. The fragments handed to
  \<^verbatim>\<open>print_callback\<close> while the session runs are the first component of what
  \<open>start\<close> and \<open>resume\<close> return, in emission order.\<close>

datatype monty_error = MontySyntaxError string | MontyTypingError string

datatype 's progress =
    MontyComplete pyval
  | MontySnapshot string "pyval list" dict 's
  | MontyFutureSnapshot

type_synonym ResourceLimits = "(string \<times> int) list"

record ('m, 's) sandbox =
  Monty :: "string \<Rightarrow> string list \<Rightarrow> string list \<Rightarrow> bool \<Rightarrow> string option \<Rightarrow> monty_error + 'm"
  start :: "'m \<Rightarrow> dict option \<Rightarrow> ResourceLimits option \<Rightarrow> string list \<times> (string + 's progress)"
  resume :: "'s \<Rightarrow> pyval \<Rightarrow> string list \<times> (string + 's progress)"

subsection \<open>The interpreter object\<close>

text \<open>A caller-supplied tool takes positional and keyword arguments and returns a value or
  raises (\<open>Inl\<close> of the exception's \<^verbatim>\<open>str\<close>).\<close>

type_synonym tool = "pyval list \<Rightarrow> dict \<Rightarrow> string + pyval"

text \<open>A declared output field is a dictionary such as \<^verbatim>\<open>{"name": "answer", "type": "str"}\<close>.\<close>

type_synonym field = "(string \<times> string) list"

record interp =
  tools :: "(string \<times> tool) list"
  type_check :: bool
  type_check_stubs :: "string option"
  limits :: "ResourceLimits option"
  state :: dict
  output_fields :: "field list option"

text \<open>\<^verbatim>\<open>__init__\<close>, \<^verbatim>\<open>start\<close> (which clears the store) and \<^verbatim>\<open>shutdown\<close>.\<close>

definition init :: "(string \<times> tool) list option \<Rightarrow> bool \<Rightarrow> string option \<Rightarrow> ResourceLimits option \<Rightarrow> interp" where
  "init ts tc stubs lim =
     \<lparr>tools = (case ts of None \<Rightarrow> [] | Some t \<Rightarrow> if t = [] then [] else dict_update [] t),
      type_check = tc, type_check_stubs = stubs, limits = lim, state = [],
      output_fields = None\<rparr>"

definition interp_start :: "interp \<Rightarrow> interp" where
  "interp_start self = self\<lparr>state := []\<rparr>"

definition shutdown :: "interp \<Rightarrow> interp" where
  "shutdown self = self"

subsection \<open>The reserved callables and the tool registry\<close>

text \<open>An entry of \<^verbatim>\<open>all_tools\<close>: a caller's tool, or one of the closures \<^verbatim>\<open>_save\<close>,
  \<^verbatim>\<open>_clear\<close>, \<^verbatim>\<open>lambda **kwargs: None\<close> that \<^verbatim>\<open>execute\<close> builds.\<close>

datatype callable = UserTool tool | SaveTool | ClearTool | SubmitTool

text \<open>\<^verbatim>\<open>_save(**kwargs)\<close>: the store after the call, and the string returned.\<close>

definition save :: "dict \<Rightarrow> dict \<Rightarrow> dict \<times> string" where
  "save st kwargs = (dict_update st kwargs, ''Saved: '' @ join '', '' (map fst kwargs))"

text \<open>The loop \<^verbatim>\<open>for n in names: self._state.pop(n, None)\<close>. A string removes its key
  if present; a list is unhashable and \<^verbatim>\<open>pop\<close> raises, leaving the earlier removals in
  place; any other value is hashable and equals no key of the store.\<close>

fun clear_pops :: "dict \<Rightarrow> pyval list \<Rightarrow> dict \<times> type_error option" where
  "clear_pops st [] = (st, None)"
| "clear_pops st (PStr n # ns) = clear_pops (AList.delete n st) ns"
| "clear_pops st (PList l # ns) = (st, Some (Unhashable (PList l)))"
| "clear_pops st (_ # ns) = clear_pops st ns"

text \<open>\<^verbatim>\<open>', '.join(names)\<close> on values: raises at the first item that is not a string.\<close>

fun join_names :: "nat \<Rightarrow> pyval list \<Rightarrow> type_error + string list" where
  "join_names i [] = Inr []"
| "join_names i (PStr n # ns) =
     (case join_names (Suc i) ns of Inl e \<Rightarrow> Inl e | Inr r \<Rightarrow> Inr (n # r))"
| "join_names i (v # ns) = Inl (JoinItem i v)"

text \<open>\<^verbatim>\<open>_clear(*names)\<close>.\<close>

definition clear :: "dict \<Rightarrow> pyval list \<Rightarrow> dict \<times> (type_error + string)" where
  "clear st names =
     (if names = [] then ([], Inr ''Cleared all saved state'')
      else case clear_pops st names of
             (st', Some e) \<Rightarrow> (st', Inl e)
           | (st', None) \<Rightarrow>
               (case join_names 0 names of
                  Inl e \<Rightarrow> (st', Inl e)
                | Inr ns \<Rightarrow> (st', Inr (''Cleared: '' @ join '', '' ns))))"

text \<open>\<^verbatim>\<open>func(*progress.args, **progress.kwargs)\<close>: the store after the call and what the
  call returned or the \<^verbatim>\<open>str\<close> of what it raised. \<^verbatim>\<open>_save\<close> takes no positional and
  \<^verbatim>\<open>_clear\<close> no keyword argument; binding such a call fails before the body runs.\<close>

fun call_tool :: "(type_error \<Rightarrow> string) \<Rightarrow> dict \<Rightarrow> callable \<Rightarrow> pyval list \<Rightarrow> dict \<Rightarrow> dict \<times> (string + pyval)" where
  "call_tool texc st (UserTool f) args kwargs = (st, f args kwargs)"
| "call_tool texc st SaveTool args kwargs =
     (if args \<noteq> [] then (st, Inl (texc (PositionalArgs ''_save'' (length args))))
      else case save st kwargs of (st', s) \<Rightarrow> (st', Inr (PStr s)))"
| "call_tool texc st ClearTool args kwargs =
     (if kwargs \<noteq> [] then (st, Inl (texc (UnexpectedKeyword ''_clear'' (fst (hd kwargs)))))
      else case clear st args of
             (st', Inl e) \<Rightarrow> (st', Inl (texc e))
           | (st', Inr s) \<Rightarrow> (st', Inr (PStr s)))"
| "call_tool texc st SubmitTool args kwargs =
     (if args \<noteq> [] then (st, Inl (texc (PositionalArgs ''<lambda>'' (length args))))
      else (st, Inr PNone))"

text \<open>The registry of a turn: a copy of the caller's tools, then the three reserved names
  stored over it.\<close>

definition all_tools :: "(string \<times> tool) list \<Rightarrow> (string \<times> callable) list" where
  "all_tools ts =
     AList.update ''SUBMIT'' SubmitTool
       (AList.update ''CLEAR'' ClearTool
         (AList.update ''SAVE'' SaveTool
           (dict_update [] (map (\<lambda>(n, f). (n, UserTool f)) ts))))"

text \<open>The variable bindings of a turn: the caller's variables, then the store over them.\<close>

definition merged_vars :: "dict \<Rightarrow> dict option \<Rightarrow> dict" where
  "merged_vars st variables =
     dict_update
       (case variables of None \<Rightarrow> [] | Some vs \<Rightarrow> if vs \<noteq> [] then dict_update [] vs else [])
       st"

subsection \<open>SUBMIT\<close>

text \<open>\<^verbatim>\<open>[f["name"] for f in self.output_fields]\<close>.\<close>

fun field_names :: "field list \<Rightarrow> error + string list" where
  "field_names [] = Inr []"
| "field_names (f # fs) =
     (case map_of f ''name'' of
        None \<Rightarrow> Inl (KeyError ''name'')
      | Some n \<Rightarrow> (case field_names fs of Inl e \<Rightarrow> Inl e | Inr ns \<Rightarrow> Inr (n # ns)))"

text \<open>The body of the SUBMIT branch up to the \<^verbatim>\<open>return\<close>: the dictionary handed to
  \<^verbatim>\<open>FinalOutput\<close>.\<close>

definition submit_kwargs :: "field list option \<Rightarrow> pyval list \<Rightarrow> dict \<Rightarrow> error + dict" where
  "submit_kwargs ofs args kwargs =
     (case ofs of
        None \<Rightarrow> Inr kwargs
      | Some fs \<Rightarrow>
          if args \<noteq> [] \<and> fs \<noteq> [] then
            (case field_names fs of
               Inl e \<Rightarrow> Inl e
             | Inr names \<Rightarrow> Inr (fold (\<lambda>(name, v) acc. setdefault name v acc) (zip names args) kwargs))
          else Inr kwargs)"

subsection \<open>The dispatch loop and \<^verbatim>\<open>execute\<close>\<close>

type_synonym 's loop_state = "dict \<times> 's progress \<times> string list"

text \<open>One pass through \<^verbatim>\<open>while not isinstance(progress, MontyComplete)\<close>, on the store,
  the progress object and \<^verbatim>\<open>stdout_parts\<close>: \<open>Inl\<close> when the turn ends here (with the
  store and what \<^verbatim>\<open>execute\<close> returns or raises), \<open>Inr\<close> when the loop goes round
  again. \<^verbatim>\<open>progress.resume\<close> is inside the \<^verbatim>\<open>try\<close>, so what it raises is reported
  like a failure of the tool.\<close>

definition execute_step ::
  "(type_error \<Rightarrow> string) \<Rightarrow> ('m, 's) sandbox \<Rightarrow> (string \<times> callable) list \<Rightarrow> field list option
     \<Rightarrow> 's loop_state \<Rightarrow> (dict \<times> (error + turn_result)) + 's loop_state" where
  "execute_step texc sb registry ofs c =
     (case c of (st, progress, stdout_parts) \<Rightarrow>
        (case progress of
           MontyComplete _ \<Rightarrow>
             Inl (st, Inr (if stdout_parts \<noteq> [] then PyStr (concat stdout_parts) else PyNone))
         | MontySnapshot function_name args kwargs h \<Rightarrow>
             if function_name = ''SUBMIT'' then
               (case submit_kwargs ofs args kwargs of
                  Inl e \<Rightarrow> Inl (st, Inl e)
                | Inr d \<Rightarrow> Inl (st, Inr (FinalOutput d)))
             else
               (case map_of registry function_name of
                  None \<Rightarrow> Inl (st, Inl (CodeInterpreterError (''Unknown function: '' @ function_name)))
                | Some func \<Rightarrow>
                    (case call_tool texc st func args kwargs of
                       (st', Inl e) \<Rightarrow>
                         Inl (st', Inl (CodeInterpreterError
                                (''Tool '' @ function_name @ '' failed: '' @ e)))
                     | (st', Inr result) \<Rightarrow>
                         (case resume sb h result of
                            (out, Inl e) \<Rightarrow>
                              Inl (st', Inl (CodeInterpreterError
                                     (''Tool '' @ function_name @ '' failed: '' @ e)))
                          | (out, Inr progress') \<Rightarrow> Inr (st', progress', stdout_parts @ out))))
         | MontyFutureSnapshot \<Rightarrow>
             Inl (st, Inl (CodeInterpreterError ''Async futures not supported''))))"

text \<open>The loop itself. A script may suspend for ever, so the loop is partial: \<open>None\<close>
  is a turn that never ends.\<close>

partial_function (option) execute_loop ::
  "(type_error \<Rightarrow> string) \<Rightarrow> ('m, 's) sandbox \<Rightarrow> (string \<times> callable) list \<Rightarrow> field list option
     \<Rightarrow> 's loop_state \<Rightarrow> (dict \<times> (error + turn_result)) option" where
  "execute_loop texc sb registry ofs c =
     (case execute_step texc sb registry ofs c of
        Inl r \<Rightarrow> Some r
      | Inr c' \<Rightarrow> execute_loop texc sb registry ofs c')"

text \<open>\<^verbatim>\<open>execute(code, variables)\<close>: the interpreter after the turn (only its store can
  have changed) and the value returned or the exception raised.\<close>

definition execute ::
  "(type_error \<Rightarrow> string) \<Rightarrow> ('m, 's) sandbox \<Rightarrow> interp \<Rightarrow> string \<Rightarrow> dict option
     \<Rightarrow> (interp \<times> (error + turn_result)) option" where
  "execute texc sb self code variables =
     (let registry = all_tools (tools self);
          mv = merged_vars (state self) variables
      in case Monty sb code (map fst mv) (map fst registry) (type_check self) (type_check_stubs self) of
           Inl (MontySyntaxError e) \<Rightarrow> Some (self, Inl (SyntaxError e))
         | Inl (MontyTypingError e) \<Rightarrow> Some (self, Inl (CodeInterpreterError e))
         | Inr monty \<Rightarrow>
             (case start sb monty (if mv \<noteq> [] then Some mv else None) (limits self) of
                (out, Inl e) \<Rightarrow> Some (self, Inl (CodeInterpreterError e))
              | (out, Inr progress) \<Rightarrow>
                  map_option (\<lambda>(st, r). (self\<lparr>state := st\<rparr>, r))
                    (execute_loop texc sb registry (output_fields self) (state self, progress, out))))"

text \<open>The loop states a turn passes through: \<open>reaches c c'\<close> when the loop, started in
  \<open>c\<close>, comes to \<open>c'\<close> after finitely many passes, each of which went round again.\<close>

inductive reaches ::
  "(type_error \<Rightarrow> string) \<Rightarrow> ('m, 's) sandbox \<Rightarrow> (string \<times> callable) list \<Rightarrow> field list option
     \<Rightarrow> 's loop_state \<Rightarrow> 's loop_state \<Rightarrow> bool"
  for texc sb registry ofs where
  here: "reaches texc sb registry ofs c c"
| pass: "execute_step texc sb registry ofs c = Inr c' \<Longrightarrow> reaches texc sb registry ofs c' c''
         \<Longrightarrow> reaches texc sb registry ofs c c''"

subsection \<open>A scripted session, to run the bridge on concrete turns\<close>

text \<open>A test double for the sandbox: each known code string stands for a fixed sequence of
  actions (print a text, print a bound string variable, call an external function, fail,
  or suspend on a future), or for a failure of parsing or type checking. A session handle
  is the bound inputs with the actions still to run; the value a call returns is ignored.\<close>

datatype action =
    Emit string
  | EmitVar string
  | Call string "pyval list" dict
  | Raise string
  | Future

fun run_script :: "dict \<Rightarrow> action list \<Rightarrow> string list \<times> (string + (dict \<times> action list) progress)" where
  "run_script env [] = ([], Inr (MontyComplete PNone))"
| "run_script env (Emit s # acts) = (case run_script env acts of (out, r) \<Rightarrow> (s # out, r))"
| "run_script env (EmitVar x # acts) =
     (case map_of env x of
        Some (PStr s) \<Rightarrow> (case run_script env acts of (out, r) \<Rightarrow> (s # out, r))
      | _ \<Rightarrow> ([], Inl (''NameError: '' @ x)))"
| "run_script env (Call f args kwargs # acts) = ([], Inr (MontySnapshot f args kwargs (env, acts)))"
| "run_script env (Raise m # acts) = ([], Inl m)"
| "run_script env (Future # acts) = ([], Inr MontyFutureSnapshot)"

definition scripted ::
  "(string \<times> (monty_error + action list)) list \<Rightarrow> (action list, dict \<times> action list) sandbox" where
  "scripted programs =
     \<lparr>Monty = (\<lambda>code inputs external_functions tc stubs.
                 case map_of programs code of
                   None \<Rightarrow> Inl (MontySyntaxError ''invalid syntax'')
                 | Some p \<Rightarrow> p),
      start = (\<lambda>acts inputs lim. run_script (case inputs of None \<Rightarrow> [] | Some d \<Rightarrow> d) acts),
      resume = (\<lambda>(env, acts) v. run_script env acts)\<rparr>"

text \<open>Some wording for the runtime's \<^verbatim>\<open>TypeError\<close>s, for the concrete runs.\<close>

definition plain_texc :: "type_error \<Rightarrow> string" where
  "plain_texc e = ''TypeError''"

text \<open>The turns used below, and an interpreter with the declared output fields
  \<^verbatim>\<open>answer\<close> and \<^verbatim>\<open>note\<close>.\<close>

definition demo_programs :: "(string \<times> (monty_error + action list)) list" where
  "demo_programs =
     [(''print(1 + 2)'', Inr [Emit ''3'', Emit [CHR 0x0A]]),
      (''print('working'); SAVE(x='a'); SUBMIT('42', note='n')'',
         Inr [Emit ''working'', Call ''SAVE'' [] [(''x'', PStr ''a'')],
              Call ''SUBMIT'' [PStr ''42''] [(''note'', PStr ''n'')]]),
      (''print(x)'', Inr [EmitVar ''x'', Emit [CHR 0x0A]]),
      (''SUBMIT('42')'', Inr [Call ''SUBMIT'' [PStr ''42''] []]),
      (''SUBMIT('a', 'b', 'c', answer='k')'',
         Inr [Call ''SUBMIT'' [PStr ''a'', PStr ''b'', PStr ''c''] [(''answer'', PStr ''k'')]]),
      (''SAVE(x='a')'', Inr [Call ''SAVE'' [] [(''x'', PStr ''a'')]]),
      (''SAVE(x='b', y='c')'', Inr [Call ''SAVE'' [] [(''x'', PStr ''b''), (''y'', PStr ''c'')]]),
      (''CLEAR('x')'', Inr [Call ''CLEAR'' [PStr ''x''] []]),
      (''SAVE(x='a'); explode()'',
         Inr [Call ''SAVE'' [] [(''x'', PStr ''a'')], Call ''explode'' [] []]),
      (''x: int = None'', Inl (MontyTypingError ''boom'')),
      (''raise ValueError('boom')'', Inr [Raise ''boom'']),
      (''SAVE(x='a'); raise ValueError('boom')'',
         Inr [Call ''SAVE'' [] [(''x'', PStr ''a'')], Raise ''boom'']),
      (''print(end=str())'', Inr [Emit []]),
      (''pass'', Inr [])]"

definition demo_interp :: interp where
  "demo_interp = (init None False None None)\<lparr>output_fields := Some [[(''name'', ''answer''), (''type'', ''str'')], [(''name'', ''note'')]]\<rparr>"

text \<open>Caller tools: one that raises, and one registered under the reserved name
  \<^verbatim>\<open>SAVE\<close>.\<close>

definition demo_tools :: "(string \<times> tool) list" where
  "demo_tools =
     [(''explode'', \<lambda>args kwargs. Inl ''kaboom''),
      (''SAVE'', \<lambda>args kwargs. Inr (PStr ''shadowed''))]"

section \<open>Properties\<close>

subsection \<open>Dictionaries\<close>

lemma map_of_dict_update:
  "map_of (dict_update d other) = map_of d ++ map_of (rev other)"
  unfolding dict_update_def
proof (induction other arbitrary: d)
  case Nil
  show ?case by simp
next
  case (Cons p other)
  obtain k v where p: "p = (k, v)" by (cases p)
  have "map_of (fold (\<lambda>(k, v). AList.update k v) other (AList.update k v d))
          = (map_of d)(k \<mapsto> v) ++ map_of (rev other)"
    by (auto simp: Cons.IH update_conv' fun_eq_iff map_add_def split: option.splits)
  also have "\<dots> = map_of d ++ map_of (rev (p # other))"
    by (simp add: p map_add_def fun_eq_iff split: option.splits)
  finally show ?case by (simp add: p)
qed

lemma map_of_rev_distinct:
  "distinct (map fst al) \<Longrightarrow> map_of (rev al) = map_of al"
proof (induction al)
  case Nil
  show ?case by simp
next
  case (Cons p al)
  obtain k v where p: "p = (k, v)" by (cases p)
  from Cons.prems have "k \<notin> fst ` set al" and "distinct (map fst al)" by (auto simp: p)
  then have "map_of al k = None" and IH: "map_of (rev al) = map_of al"
    by (auto simp: map_of_eq_None_iff Cons.IH)
  then show ?case
    by (auto simp: p map_add_def fun_eq_iff split: option.splits)
qed

lemma map_of_dict_update_distinct:
  "distinct (map fst other) \<Longrightarrow> map_of (dict_update d other) = map_of d ++ map_of other"
  by (simp add: map_of_dict_update map_of_rev_distinct)

lemma distinct_dict_update:
  "distinct (map fst d) \<Longrightarrow> distinct (map fst (dict_update d other))"
  unfolding dict_update_def
  by (induction other arbitrary: d) (auto simp: distinct_update)

lemma map_of_setdefault:
  "map_of (setdefault k v d) = [k \<mapsto> v] ++ map_of d"
  by (auto simp: setdefault_def map_add_def fun_eq_iff map_of_eq_None_iff
           split: option.splits)

lemma map_of_fold_setdefault:
  "map_of (fold (\<lambda>(name, v) acc. setdefault name v acc) ps kw) = map_of ps ++ map_of kw"
proof (induction ps arbitrary: kw)
  case Nil
  show ?case by simp
next
  case (Cons p ps)
  obtain k v where p: "p = (k, v)" by (cases p)
  show ?case
    by (simp add: p Cons.IH map_of_setdefault)
       (auto simp: map_add_def fun_eq_iff split: option.splits)
qed

lemma fold_setdefault_keeps:
  "\<exists>ext. fold (\<lambda>(name, v) acc. setdefault name v acc) ps kw = kw @ ext"
proof (induction ps arbitrary: kw)
  case Nil
  show ?case by simp
next
  case (Cons p ps)
  obtain k v where p: "p = (k, v)" by (cases p)
  from Cons.IH [of "setdefault k v kw"] show ?case
    by (auto simp: p setdefault_def split: if_splits)
qed

subsection \<open>The loop\<close>

lemma execute_loop_reaches:
  "reaches texc sb registry ofs c c' \<Longrightarrow>
     execute_loop texc sb registry ofs c = execute_loop texc sb registry ofs c'"
proof (induction rule: reaches.induct)
  case (here c)
  show ?case by simp
next
  case (pass c c' c'')
  have "execute_loop texc sb registry ofs c = execute_loop texc sb registry ofs c'"
    by (subst execute_loop.simps) (simp add: pass.hyps(1))
  with pass.IH show ?case by simp
qed

lemma execute_loop_ends:
  "execute_step texc sb registry ofs c = Inl r \<Longrightarrow> execute_loop texc sb registry ofs c = Some r"
  by (subst execute_loop.simps) simp

lemma reaches_stdout_parts:
  "reaches texc sb registry ofs c c' \<Longrightarrow> \<exists>ext. snd (snd c') = snd (snd c) @ ext"
proof (induction rule: reaches.induct)
  case (here c)
  show ?case by simp
next
  case (pass c c' c'')
  from pass.hyps(1) have "\<exists>ext. snd (snd c') = snd (snd c) @ ext"
    by (auto simp: execute_step_def
             split: prod.splits progress.splits if_splits sum.splits option.splits)
  with pass.IH show ?case by auto
qed

lemma execute_started:
  assumes "Monty sb code (map fst (merged_vars (state self) variables))
             (map fst (all_tools (tools self))) (type_check self) (type_check_stubs self) = Inr monty"
    and "start sb monty
           (if merged_vars (state self) variables \<noteq> [] then Some (merged_vars (state self) variables)
            else None)
           (limits self) = (out, Inr progress)"
    and "reaches texc sb (all_tools (tools self)) (output_fields self) (state self, progress, out) c"
  shows "execute texc sb self code variables =
           map_option (\<lambda>(st, r). (self\<lparr>state := st\<rparr>, r))
             (execute_loop texc sb (all_tools (tools self)) (output_fields self) c)"
  using assms(1,2) execute_loop_reaches [OF assms(3)]
  by (simp add: execute_def Let_def)

subsection \<open>SUBMIT\<close>

lemma field_names_ok:
  "\<forall>f \<in> set fs. ''name'' \<in> fst ` set f \<Longrightarrow>
     field_names fs = Inr (map (\<lambda>f. the (map_of f ''name'')) fs)"
proof (induction fs)
  case Nil
  show ?case by simp
next
  case (Cons f fs)
  from Cons.prems obtain n where "map_of f ''name'' = Some n"
    by (cases "map_of f ''name''") (auto simp: map_of_eq_None_iff)
  with Cons show ?case by simp
qed

lemma submit_kwargs_map_of:
  assumes "\<forall>fs. ofs = Some fs \<longrightarrow> (\<forall>f \<in> set fs. ''name'' \<in> fst ` set f)"
  shows "\<exists>d. submit_kwargs ofs args kwargs = Inr d
           \<and> (\<exists>ext. d = kwargs @ ext)
           \<and> (\<forall>fs. ofs = Some fs \<and> args \<noteq> [] \<longrightarrow>
                 map_of d = map_of (zip (map (\<lambda>f. the (map_of f ''name'')) fs) args) ++ map_of kwargs)"
proof (cases ofs)
  case None
  then show ?thesis by (simp add: submit_kwargs_def)
next
  case (Some fs)
  with assms have "field_names fs = Inr (map (\<lambda>f. the (map_of f ''name'')) fs)"
    by (simp add: field_names_ok)
  with Some show ?thesis
    using fold_setdefault_keeps [of "zip (map (\<lambda>f. the (map_of f ''name'')) fs) args" kwargs]
    by (auto simp: submit_kwargs_def map_of_fold_setdefault)
qed

text \<open>
  Claim C1. Whenever the sandbox suspends asking for \<^verbatim>\<open>SUBMIT\<close>, at whatever point of
  the turn and whatever has been printed so far, \<^verbatim>\<open>execute\<close> returns at once (the
  session is not resumed) a \<^verbatim>\<open>FinalOutput\<close>: every keyword binding is in it unchanged,
  and with declared output fields the positional arguments are bound to the field names in
  declaration order, a keyword binding winning over a positional one. The captured text is
  not part of what is returned. Without positional arguments the \<^verbatim>\<open>FinalOutput\<close> is
  the keyword dictionary itself. The declared fields carry a \<^verbatim>\<open>"name"\<close> each, which
  \<^verbatim>\<open>f["name"]\<close> needs.
\<close>

theorem submit_ends_turn_with_final_output:
  assumes built: "Monty sb code (map fst (merged_vars (state self) variables))
             (map fst (all_tools (tools self))) (type_check self) (type_check_stubs self) = Inr monty"
    and started: "start sb monty
           (if merged_vars (state self) variables \<noteq> [] then Some (merged_vars (state self) variables)
            else None)
           (limits self) = (out, Inr progress)"
    and suspended: "reaches texc sb (all_tools (tools self)) (output_fields self)
           (state self, progress, out) (st, MontySnapshot ''SUBMIT'' args kwargs h, stdout_parts)"
    and schema: "\<forall>fs. output_fields self = Some fs \<longrightarrow> (\<forall>f \<in> set fs. ''name'' \<in> fst ` set f)"
  shows "\<exists>d. execute texc sb self code variables = Some (self\<lparr>state := st\<rparr>, Inr (FinalOutput d))
           \<and> (\<forall>k \<in> fst ` set kwargs. map_of d k = map_of kwargs k)
           \<and> (\<forall>fs. output_fields self = Some fs \<and> args \<noteq> [] \<longrightarrow>
                 map_of d = map_of (zip (map (\<lambda>f. the (map_of f ''name'')) fs) args) ++ map_of kwargs)
           \<and> (args = [] \<longrightarrow> d = kwargs)"
proof -
  from submit_kwargs_map_of [OF schema, of args kwargs]
  obtain d ext where d: "submit_kwargs (output_fields self) args kwargs = Inr d"
    and keep: "d = kwargs @ ext"
    and pos: "\<forall>fs. output_fields self = Some fs \<and> args \<noteq> [] \<longrightarrow>
                 map_of d = map_of (zip (map (\<lambda>f. the (map_of f ''name'')) fs) args) ++ map_of kwargs"
    by blast
  have "execute_step texc sb (all_tools (tools self)) (output_fields self)
          (st, MontySnapshot ''SUBMIT'' args kwargs h, stdout_parts) = Inl (st, Inr (FinalOutput d))"
    by (simp add: execute_step_def d)
  then have "execute texc sb self code variables = Some (self\<lparr>state := st\<rparr>, Inr (FinalOutput d))"
    by (simp add: execute_started [OF built started suspended] execute_loop_ends)
  moreover have "\<forall>k \<in> fst ` set kwargs. map_of d k = map_of kwargs k"
    by (auto simp: keep map_add_def map_of_eq_None_iff split: option.splits)
  moreover have "args = [] \<longrightarrow> d = kwargs"
    using d by (auto simp: submit_kwargs_def split: option.splits)
  ultimately show ?thesis using pos by blast
qed

theorem submit_ends_turn_with_final_output_witness:
  "\<exists>d. execute plain_texc (scripted demo_programs) demo_interp
          ''print('working'); SAVE(x='a'); SUBMIT('42', note='n')'' None
        = Some (demo_interp\<lparr>state := [(''x'', PStr ''a'')]\<rparr>, Inr (FinalOutput d))
      \<and> map_of d ''note'' = Some (PStr ''n'') \<and> map_of d ''answer'' = Some (PStr ''42'')"
proof -
  let ?code = "''print('working'); SAVE(x='a'); SUBMIT('42', note='n')''"
  let ?sb = "scripted demo_programs"
  let ?acts = "[Emit ''working'', Call ''SAVE'' [] [(''x'', PStr ''a'')],
              Call ''SUBMIT'' [PStr ''42''] [(''note'', PStr ''n'')]]"
  have mv: "merged_vars (state demo_interp) None = []"
    by (simp add: merged_vars_def demo_interp_def init_def dict_update_def)
  have built: "Monty ?sb ?code (map fst (merged_vars (state demo_interp) None))
             (map fst (all_tools (tools demo_interp))) (type_check demo_interp)
             (type_check_stubs demo_interp) = Inr ?acts"
    by (simp add: scripted_def demo_programs_def)
  have started: "start ?sb ?acts
           (if merged_vars (state demo_interp) None \<noteq> []
            then Some (merged_vars (state demo_interp) None) else None)
           (limits demo_interp)
         = ([''working''], Inr (MontySnapshot ''SAVE'' [] [(''x'', PStr ''a'')]
                ([], [Call ''SUBMIT'' [PStr ''42''] [(''note'', PStr ''n'')]])))"
    by (simp add: mv scripted_def)
  have step: "execute_step plain_texc ?sb (all_tools (tools demo_interp)) (output_fields demo_interp)
           (state demo_interp, MontySnapshot ''SAVE'' [] [(''x'', PStr ''a'')]
                ([], [Call ''SUBMIT'' [PStr ''42''] [(''note'', PStr ''n'')]]), [''working''])
         = Inr ([(''x'', PStr ''a'')],
                MontySnapshot ''SUBMIT'' [PStr ''42''] [(''note'', PStr ''n'')] ([], []),
                [''working''])"
    by (simp add: execute_step_def all_tools_def demo_interp_def init_def dict_update_def
          save_def scripted_def)
  have suspended: "reaches plain_texc ?sb (all_tools (tools demo_interp)) (output_fields demo_interp)
           (state demo_interp, MontySnapshot ''SAVE'' [] [(''x'', PStr ''a'')]
                ([], [Call ''SUBMIT'' [PStr ''42''] [(''note'', PStr ''n'')]]), [''working''])
           ([(''x'', PStr ''a'')],
                MontySnapshot ''SUBMIT'' [PStr ''42''] [(''note'', PStr ''n'')] ([], []),
                [''working''])"
    by (rule reaches.pass [OF step reaches.here])
  have schema: "\<forall>fs. output_fields demo_interp = Some fs \<longrightarrow> (\<forall>f \<in> set fs. ''name'' \<in> fst ` set f)"
    by (simp add: demo_interp_def)
  from submit_ends_turn_with_final_output [OF built started suspended schema]
  show ?thesis by (auto simp: demo_interp_def)
qed

subsection \<open>The variable bindings of a turn\<close>

lemma map_of_merged_vars:
  assumes "distinct (map fst vars)" and "distinct (map fst st)"
  shows "map_of (merged_vars st (Some vars)) = map_of vars ++ map_of st"
  using assms
  by (cases "vars = []") (simp_all add: merged_vars_def map_of_dict_update_distinct)

text \<open>
  Claim C2. With caller-supplied variables, the bindings handed to the sandbox (the
  names to \<^verbatim>\<open>Monty\<close>, the values to \<^verbatim>\<open>start\<close>) are \<open>merged_vars\<close>: the caller's
  variables overridden by the store. A name bound in the store has the store's value,
  a name bound only by the caller has the caller's, and no name occurs twice.
\<close>

theorem state_shadows_caller_variables:
  assumes "distinct (map fst vars)" and "distinct (map fst st)"
  shows "map_of (merged_vars st (Some vars)) = map_of vars ++ map_of st
       \<and> (\<forall>k v. map_of st k = Some v \<longrightarrow> map_of (merged_vars st (Some vars)) k = Some v)
       \<and> (\<forall>k. k \<notin> fst ` set st \<longrightarrow> map_of (merged_vars st (Some vars)) k = map_of vars k)
       \<and> distinct (map fst (merged_vars st (Some vars)))"
proof -
  have m: "map_of (merged_vars st (Some vars)) = map_of vars ++ map_of st"
    by (rule map_of_merged_vars [OF assms])
  have "distinct (map fst (merged_vars st (Some vars)))"
    by (simp add: merged_vars_def distinct_dict_update)
  then show ?thesis
    by (auto simp: m map_add_def map_of_eq_None_iff [symmetric] split: option.splits)
qed

theorem state_shadows_caller_variables_witness:
  "map_of (merged_vars [(''x'', PStr ''saved'')] (Some [(''x'', PStr ''input''), (''y'', PStr ''other'')])) ''x''
     = Some (PStr ''saved'')
   \<and> map_of (merged_vars [(''x'', PStr ''saved'')] (Some [(''x'', PStr ''input''), (''y'', PStr ''other'')])) ''y''
     = Some (PStr ''other'')
   \<and> execute plain_texc (scripted demo_programs) (demo_interp\<lparr>state := [(''x'', PStr ''saved'')]\<rparr>)
       ''print(x)'' (Some [(''x'', PStr ''input''), (''y'', PStr ''other'')])
     = Some (demo_interp\<lparr>state := [(''x'', PStr ''saved'')]\<rparr>, Inr (PyStr (''saved'' @ [CHR 0x0A])))"
proof -
  have run: "execute plain_texc (scripted demo_programs) (demo_interp\<lparr>state := [(''x'', PStr ''saved'')]\<rparr>)
       ''print(x)'' (Some [(''x'', PStr ''input''), (''y'', PStr ''other'')])
     = Some (demo_interp\<lparr>state := [(''x'', PStr ''saved'')]\<rparr>, Inr (PyStr (''saved'' @ [CHR 0x0A])))"
    by (simp add: execute_def Let_def merged_vars_def dict_update_def scripted_def
          demo_programs_def execute_loop_ends execute_step_def)
  from state_shadows_caller_variables
         [of "[(''x'', PStr ''input''), (''y'', PStr ''other'')]" "[(''x'', PStr ''saved'')]"]
  show ?thesis using run by simp
qed


subsection \<open>SUBMIT without declared output fields\<close>

lemma execute_ends_at:
  assumes "Monty sb code (map fst (merged_vars (state self) variables))
             (map fst (all_tools (tools self))) (type_check self) (type_check_stubs self) = Inr monty"
    and "start sb monty
           (if merged_vars (state self) variables \<noteq> [] then Some (merged_vars (state self) variables)
            else None)
           (limits self) = (out, Inr progress)"
    and "reaches texc sb (all_tools (tools self)) (output_fields self) (state self, progress, out) c"
    and "execute_step texc sb (all_tools (tools self)) (output_fields self) c = Inl (st, r)"
  shows "execute texc sb self code variables = Some (self\<lparr>state := st\<rparr>, r)"
  by (simp add: execute_started [OF assms(1-3)] execute_loop_ends [OF assms(4)])

text \<open>
  Claim C3, as stated, fails: with \<^verbatim>\<open>output_fields\<close> unset, \<^verbatim>\<open>SUBMIT('42')\<close> yields an
  empty \<^verbatim>\<open>FinalOutput\<close>; the positional value is in it under no name.
\<close>

theorem submit_without_schema_counterexample:
  "execute plain_texc (scripted demo_programs) (init None False None None) ''SUBMIT('42')'' None
     = Some (init None False None None, Inr (FinalOutput []))"
  by (simp add: execute_def Let_def merged_vars_def dict_update_def scripted_def init_def
        demo_programs_def execute_loop_ends execute_step_def submit_kwargs_def)

text \<open>
  Claim C3, amended. With \<^verbatim>\<open>output_fields\<close> unset, a \<^verbatim>\<open>SUBMIT\<close> suspension still ends
  the turn successfully, and the \<^verbatim>\<open>FinalOutput\<close> holds exactly the keyword bindings
  given to \<^verbatim>\<open>SUBMIT\<close>; positional arguments are dropped.
\<close>

theorem submit_without_schema_keeps_keywords:
  assumes built: "Monty sb code (map fst (merged_vars (state self) variables))
             (map fst (all_tools (tools self))) (type_check self) (type_check_stubs self) = Inr monty"
    and started: "start sb monty
           (if merged_vars (state self) variables \<noteq> [] then Some (merged_vars (state self) variables)
            else None)
           (limits self) = (out, Inr progress)"
    and suspended: "reaches texc sb (all_tools (tools self)) (output_fields self)
           (state self, progress, out) (st, MontySnapshot ''SUBMIT'' args kwargs h, stdout_parts)"
    and no_schema: "output_fields self = None"
  shows "execute texc sb self code variables = Some (self\<lparr>state := st\<rparr>, Inr (FinalOutput kwargs))"
proof (rule execute_ends_at [OF built started suspended])
  show "execute_step texc sb (all_tools (tools self)) (output_fields self)
          (st, MontySnapshot ''SUBMIT'' args kwargs h, stdout_parts) = Inl (st, Inr (FinalOutput kwargs))"
    by (simp add: execute_step_def submit_kwargs_def no_schema)
qed

theorem submit_without_schema_keeps_keywords_witness:
  "execute plain_texc (scripted demo_programs) (init None False None None)
     ''print('working'); SAVE(x='a'); SUBMIT('42', note='n')'' None
   = Some ((init None False None None)\<lparr>state := [(''x'', PStr ''a'')]\<rparr>,
           Inr (FinalOutput [(''note'', PStr ''n'')]))"
proof -
  let ?self = "init None False None None"
  let ?code = "''print('working'); SAVE(x='a'); SUBMIT('42', note='n')''"
  let ?sb = "scripted demo_programs"
  let ?acts = "[Emit ''working'', Call ''SAVE'' [] [(''x'', PStr ''a'')],
              Call ''SUBMIT'' [PStr ''42''] [(''note'', PStr ''n'')]]"
  let ?c0 = "(state ?self, MontySnapshot ''SAVE'' [] [(''x'', PStr ''a'')]
                ([], [Call ''SUBMIT'' [PStr ''42''] [(''note'', PStr ''n'')]]), [''working''])"
  let ?c1 = "([(''x'', PStr ''a'')],
                MontySnapshot ''SUBMIT'' [PStr ''42''] [(''note'', PStr ''n'')] ([], []),
                [''working''])"
  have mv: "merged_vars (state ?self) None = []"
    by (simp add: merged_vars_def init_def dict_update_def)
  have built: "Monty ?sb ?code (map fst (merged_vars (state ?self) None))
             (map fst (all_tools (tools ?self))) (type_check ?self)
             (type_check_stubs ?self) = Inr ?acts"
    by (simp add: scripted_def demo_programs_def)
  have started: "start ?sb ?acts
           (if merged_vars (state ?self) None \<noteq> []
            then Some (merged_vars (state ?self) None) else None)
           (limits ?self)
         = ([''working''], Inr (MontySnapshot ''SAVE'' [] [(''x'', PStr ''a'')]
                ([], [Call ''SUBMIT'' [PStr ''42''] [(''note'', PStr ''n'')]])))"
    by (simp add: mv scripted_def)
  have step: "execute_step plain_texc ?sb (all_tools (tools ?self)) (output_fields ?self) ?c0
         = Inr ?c1"
    by (simp add: execute_step_def all_tools_def init_def dict_update_def
          save_def scripted_def)
  have suspended: "reaches plain_texc ?sb (all_tools (tools ?self)) (output_fields ?self) ?c0 ?c1"
    by (rule reaches.pass [OF step reaches.here])
  have no_schema: "output_fields ?self = None"
    by (simp add: init_def)
  from submit_without_schema_keeps_keywords [OF built started suspended no_schema]
  show ?thesis .
qed

subsection \<open>SUBMIT with more positional arguments than declared fields\<close>

lemma zip_take_left: "zip xs (take (length xs) ys) = zip xs ys"
proof (induction xs arbitrary: ys)
  case Nil
  show ?case by simp
next
  case (Cons a xs)
  show ?case by (cases ys) (simp_all add: Cons.IH)
qed

text \<open>
  Claim C10. With declared output fields and more positional arguments than fields,
  \<^verbatim>\<open>SUBMIT\<close> raises nothing: the keys of the \<^verbatim>\<open>FinalOutput\<close> are the keyword names
  and the declared names and no others, so the surplus arguments are bound nowhere; a
  keyword binding stays as given, so the positional argument paired with that field is
  dropped; and a field without keyword binding holds the argument at its own position,
  not one shifted from an earlier field.
\<close>

theorem submit_drops_surplus_positionals:
  assumes built: "Monty sb code (map fst (merged_vars (state self) variables))
             (map fst (all_tools (tools self))) (type_check self) (type_check_stubs self) = Inr monty"
    and started: "start sb monty
           (if merged_vars (state self) variables \<noteq> [] then Some (merged_vars (state self) variables)
            else None)
           (limits self) = (out, Inr progress)"
    and suspended: "reaches texc sb (all_tools (tools self)) (output_fields self)
           (state self, progress, out) (st, MontySnapshot ''SUBMIT'' args kwargs h, stdout_parts)"
    and schema: "output_fields self = Some fs" "\<forall>f \<in> set fs. ''name'' \<in> fst ` set f"
    and surplus: "length fs < length args"
    and names: "names = map (\<lambda>f. the (map_of f ''name'')) fs"
  shows "\<exists>d. execute texc sb self code variables = Some (self\<lparr>state := st\<rparr>, Inr (FinalOutput d))
           \<and> fst ` set d = fst ` set kwargs \<union> set names
           \<and> (\<forall>k \<in> fst ` set kwargs. map_of d k = map_of kwargs k)
           \<and> (\<forall>i < length fs. distinct names \<and> names ! i \<notin> fst ` set kwargs \<longrightarrow>
                 map_of d (names ! i) = Some (args ! i))"
proof -
  have sch: "\<forall>fs. output_fields self = Some fs \<longrightarrow> (\<forall>f \<in> set fs. ''name'' \<in> fst ` set f)"
    using schema by simp
  have ne: "args \<noteq> []" using surplus by auto
  from submit_kwargs_map_of [OF sch, of args kwargs] schema(1) ne names
  obtain d where d: "submit_kwargs (output_fields self) args kwargs = Inr d"
    and pos: "map_of d = map_of (zip names args) ++ map_of kwargs"
    by auto
  have len: "length names = length (take (length names) args)"
    using surplus names by simp
  have z: "zip names args = zip names (take (length names) args)"
    by (simp add: zip_take_left)
  have "execute_step texc sb (all_tools (tools self)) (output_fields self)
          (st, MontySnapshot ''SUBMIT'' args kwargs h, stdout_parts) = Inl (st, Inr (FinalOutput d))"
    by (simp add: execute_step_def d)
  then have run: "execute texc sb self code variables = Some (self\<lparr>state := st\<rparr>, Inr (FinalOutput d))"
    by (rule execute_ends_at [OF built started suspended])
  have "dom (map_of d) = dom (map_of kwargs) \<union> set names"
    by (subst pos, subst z) (simp add: dom_map_of_zip [OF len] Un_commute)
  then have keys: "fst ` set d = fst ` set kwargs \<union> set names"
    by (simp add: dom_map_of_conv_image_fst)
  have kw: "\<forall>k \<in> fst ` set kwargs. map_of d k = map_of kwargs k"
    by (auto simp: pos map_add_def map_of_eq_None_iff split: option.splits)
  have "map_of d (names ! i) = Some (args ! i)"
    if "i < length fs" "distinct names" "names ! i \<notin> fst ` set kwargs" for i
  proof -
    have i: "i < length names" using that(1) names by simp
    have "map_of (zip names (take (length names) args)) (names ! i)
            = Some (take (length names) args ! i)"
      using that(2) i len by (intro map_of_zip_nth) simp_all
    then have a: "map_of (zip names args) (names ! i) = Some (args ! i)"
      using i by (simp add: zip_take_left)
    have b: "map_of kwargs (names ! i) = None"
      using that(3) by (simp add: map_of_eq_None_iff)
    show ?thesis
      by (simp add: pos map_add_def a b)
  qed
  with run keys kw show ?thesis by blast
qed

theorem submit_drops_surplus_positionals_witness:
  "\<exists>d. execute plain_texc (scripted demo_programs) demo_interp
          ''SUBMIT('a', 'b', 'c', answer='k')'' None
        = Some (demo_interp, Inr (FinalOutput d))
      \<and> fst ` set d = {''answer'', ''note''}
      \<and> map_of d ''answer'' = Some (PStr ''k'') \<and> map_of d ''note'' = Some (PStr ''b'')"
proof -
  let ?code = "''SUBMIT('a', 'b', 'c', answer='k')''"
  let ?sb = "scripted demo_programs"
  let ?args = "[PStr ''a'', PStr ''b'', PStr ''c'']"
  let ?kwargs = "[(''answer'', PStr ''k'')]"
  let ?acts = "[Call ''SUBMIT'' ?args ?kwargs]"
  let ?fs = "[[(''name'', ''answer''), (''type'', ''str'')], [(''name'', ''note'')]]"
  have mv: "merged_vars (state demo_interp) None = []"
    by (simp add: merged_vars_def demo_interp_def init_def dict_update_def)
  have built: "Monty ?sb ?code (map fst (merged_vars (state demo_interp) None))
             (map fst (all_tools (tools demo_interp))) (type_check demo_interp)
             (type_check_stubs demo_interp) = Inr ?acts"
    by (simp add: scripted_def demo_programs_def)
  have started: "start ?sb ?acts
           (if merged_vars (state demo_interp) None \<noteq> []
            then Some (merged_vars (state demo_interp) None) else None)
           (limits demo_interp)
         = ([], Inr (MontySnapshot ''SUBMIT'' ?args ?kwargs ([], [])))"
    by (simp add: mv scripted_def)
  have suspended: "reaches plain_texc ?sb (all_tools (tools demo_interp)) (output_fields demo_interp)
           (state demo_interp, MontySnapshot ''SUBMIT'' ?args ?kwargs ([], []), [])
           ([], MontySnapshot ''SUBMIT'' ?args ?kwargs ([], []), [])"
    by (simp add: demo_interp_def init_def reaches.here)
  have schema: "output_fields demo_interp = Some ?fs" "\<forall>f \<in> set ?fs. ''name'' \<in> fst ` set f"
    by (simp_all add: demo_interp_def)
  have surplus: "length ?fs < length ?args" by simp
  have names: "[''answer'', ''note''] = map (\<lambda>f. the (map_of f ''name'')) ?fs" by simp
  have st: "demo_interp\<lparr>state := []\<rparr> = demo_interp"
    by (simp add: demo_interp_def init_def)
  from submit_drops_surplus_positionals [OF built started suspended schema surplus names]
  obtain d where d: "execute plain_texc ?sb demo_interp ?code None
        = Some (demo_interp, Inr (FinalOutput d))"
    "fst ` set d = fst ` set ?kwargs \<union> set [''answer'', ''note'']"
    "\<forall>k \<in> fst ` set ?kwargs. map_of d k = map_of ?kwargs k"
    "\<forall>i < length ?fs. distinct [''answer'', ''note''] \<and> [''answer'', ''note''] ! i \<notin> fst ` set ?kwargs \<longrightarrow>
                 map_of d ([''answer'', ''note''] ! i) = Some (?args ! i)"
    unfolding st by blast
  from d(4) have "map_of d ''note'' = Some (PStr ''b'')"
    by (auto dest: spec [where x = 1])
  with d(1,2,3) show ?thesis by auto
qed

subsection \<open>The tool registry\<close>

lemma map_of_all_tools:
  "map_of (all_tools ts) =
     (map_option UserTool \<circ> map_of (rev ts))
       (''SAVE'' \<mapsto> SaveTool, ''CLEAR'' \<mapsto> ClearTool, ''SUBMIT'' \<mapsto> SubmitTool)"
proof -
  have "map_of (rev (map (\<lambda>(n, f). (n, UserTool f)) ts)) = map_option UserTool \<circ> map_of (rev ts)"
    unfolding rev_map by (rule map_of_map)
  then show ?thesis
    by (simp add: all_tools_def update_conv' map_of_dict_update)
qed

lemma registry_reserved:
  "map_of (all_tools ts) ''SAVE'' = Some SaveTool"
  "map_of (all_tools ts) ''CLEAR'' = Some ClearTool"
  "map_of (all_tools ts) ''SUBMIT'' = Some SubmitTool"
  by (simp_all add: map_of_all_tools)

lemma registry_other:
  assumes "distinct (map fst ts)" and "n \<noteq> ''SAVE''" and "n \<noteq> ''CLEAR''" and "n \<noteq> ''SUBMIT''"
  shows "map_of (all_tools ts) n = map_option UserTool (map_of ts n)"
  using assms by (simp add: map_of_all_tools map_of_rev_distinct)


lemma execute_loop_pass:
  "execute_step texc sb registry ofs c = Inr c' \<Longrightarrow>
     execute_loop texc sb registry ofs c = execute_loop texc sb registry ofs c'"
  by (subst execute_loop.simps) simp

text \<open>
  Claim C7. The registry of a turn is the caller's tools with \<^verbatim>\<open>SAVE\<close>, \<^verbatim>\<open>CLEAR\<close>
  and \<^verbatim>\<open>SUBMIT\<close> stored over them: the three names always denote the bridge's own
  callables, every other name the caller's tool, and a suspension on a reserved name is
  served exactly as it is with no caller tools at all.
\<close>

theorem reserved_names_overwrite_caller_tools:
  assumes "distinct (map fst ts)"
  shows "map_of (all_tools ts) ''SAVE'' = Some SaveTool
       \<and> map_of (all_tools ts) ''CLEAR'' = Some ClearTool
       \<and> map_of (all_tools ts) ''SUBMIT'' = Some SubmitTool
       \<and> (\<forall>n. n \<notin> {''SAVE'', ''CLEAR'', ''SUBMIT''} \<longrightarrow>
             map_of (all_tools ts) n = map_option UserTool (map_of ts n))
       \<and> (\<forall>n \<in> {''SAVE'', ''CLEAR'', ''SUBMIT''}.
             execute_step texc sb (all_tools ts) ofs (st, MontySnapshot n args kwargs h, parts)
               = execute_step texc sb (all_tools []) ofs (st, MontySnapshot n args kwargs h, parts))"
proof -
  have "execute_step texc sb (all_tools ts) ofs (st, MontySnapshot n args kwargs h, parts)
          = execute_step texc sb (all_tools []) ofs (st, MontySnapshot n args kwargs h, parts)"
    if "n \<in> {''SAVE'', ''CLEAR'', ''SUBMIT''}" for n
  proof -
    have "map_of (all_tools ts) n = map_of (all_tools []) n"
      using that by (auto simp: registry_reserved)
    then show ?thesis by (simp add: execute_step_def)
  qed
  moreover have "map_of (all_tools ts) n = map_option UserTool (map_of ts n)"
    if "n \<notin> {''SAVE'', ''CLEAR'', ''SUBMIT''}" for n
    using that assms by (intro registry_other) simp_all
  ultimately show ?thesis
    by (simp only: registry_reserved) blast
qed


theorem reserved_names_overwrite_caller_tools_witness:
  "map_of (all_tools demo_tools) ''SAVE'' = Some SaveTool
   \<and> map_of (all_tools demo_tools) ''explode'' = map_option UserTool (map_of demo_tools ''explode'')
   \<and> execute_step plain_texc (scripted demo_programs) (all_tools demo_tools) None
        ([], MontySnapshot ''SAVE'' [] [(''x'', PStr ''a'')] ([], []), [])
      = Inr ([(''x'', PStr ''a'')], MontyComplete PNone, [])"
proof -
  have d: "distinct (map fst demo_tools)"
    by (simp add: demo_tools_def)
  have n: "''explode'' \<notin> {''SAVE'', ''CLEAR'', ''SUBMIT''}" "''SAVE'' \<in> {''SAVE'', ''CLEAR'', ''SUBMIT''}"
    by simp_all
  have base: "execute_step plain_texc (scripted demo_programs) (all_tools []) None
        ([], MontySnapshot ''SAVE'' [] [(''x'', PStr ''a'')] ([], []), [])
      = Inr ([(''x'', PStr ''a'')], MontyComplete PNone, [])"
    by (simp add: execute_step_def all_tools_def dict_update_def save_def scripted_def)
  from reserved_names_overwrite_caller_tools
         [OF d, of plain_texc "scripted demo_programs" None "[]" "[]" "[(''x'', PStr ''a'')]" "([], [])" "[]"]
  have "map_of (all_tools demo_tools) ''SAVE'' = Some SaveTool"
    and "\<forall>n. n \<notin> {''SAVE'', ''CLEAR'', ''SUBMIT''} \<longrightarrow>
             map_of (all_tools demo_tools) n = map_option UserTool (map_of demo_tools n)"
    and "\<forall>n \<in> {''SAVE'', ''CLEAR'', ''SUBMIT''}.
             execute_step plain_texc (scripted demo_programs) (all_tools demo_tools) None
                 ([], MontySnapshot n [] [(''x'', PStr ''a'')] ([], []), [])
               = execute_step plain_texc (scripted demo_programs) (all_tools []) None
                 ([], MontySnapshot n [] [(''x'', PStr ''a'')] ([], []), [])"
    by blast+
  with n base show ?thesis by metis
qed


subsection \<open>CLEAR\<close>






subsection \<open>SAVE\<close>




subsection \<open>Errors\<close>








subsection \<open>A failing tool\<close>

lemma execute_step_pass_parts:
  assumes "execute_step texc sb registry ofs c = Inr c'"
  shows "\<exists>fn args kwargs h result.
           fst (snd c) = MontySnapshot fn args kwargs h
         \<and> snd (snd c') = snd (snd c) @ fst (resume sb h result)"
proof -
  obtain s p parts where c: "c = (s, p, parts)" by (cases c)
  show ?thesis
  proof (cases p)
    case (MontyComplete v)
    with assms c show ?thesis by (simp add: execute_step_def)
  next
    case (MontySnapshot fn args kwargs h)
    with assms c
    have step: "execute_step texc sb registry ofs (s, MontySnapshot fn args kwargs h, parts) = Inr c'"
      by simp
    have ns: "fn \<noteq> ''SUBMIT''"
      using step by (auto simp: execute_step_def split: sum.splits)
    obtain func where f: "map_of registry fn = Some func"
      using step ns by (cases "map_of registry fn") (simp_all add: execute_step_def)
    obtain st' r where ct: "call_tool texc s func args kwargs = (st', r)"
      by (cases "call_tool texc s func args kwargs")
    obtain result where r: "r = Inr result"
      using step ns f ct by (cases r) (simp_all add: execute_step_def)
    obtain out q where rs: "resume sb h result = (out, q)"
      by (cases "resume sb h result")
    obtain p' where q: "q = Inr p'"
      using step ns f ct r rs by (cases q) (simp_all add: execute_step_def)
    have "c' = (st', p', parts @ out)"
      using step ns f ct r rs q by (simp add: execute_step_def)
    then have "fst (snd c) = MontySnapshot fn args kwargs h
         \<and> snd (snd c') = snd (snd c) @ fst (resume sb h result)"
      by (simp add: c MontySnapshot rs)
    then show ?thesis by blast
  next
    case MontyFutureSnapshot
    with assms c show ?thesis by (simp add: execute_step_def)
  qed
qed



subsection \<open>Normal completion\<close>

text \<open>
  Claim C9. When the session completes without \<^verbatim>\<open>SUBMIT\<close>, \<^verbatim>\<open>execute\<close> returns the
  concatenation of \<^verbatim>\<open>stdout_parts\<close>, or \<^verbatim>\<open>None\<close> when nothing was captured;
  \<^verbatim>\<open>None\<close> is not the empty string. \<^verbatim>\<open>stdout_parts\<close> starts with the fragments of
  \<^verbatim>\<open>start\<close>, and every pass of the loop appends the fragments of its \<^verbatim>\<open>resume\<close> at
  the end, so the order is the order of emission.
\<close>

theorem completion_returns_captured_text:
  assumes built: "Monty sb code (map fst (merged_vars (state self) variables))
             (map fst (all_tools (tools self))) (type_check self) (type_check_stubs self) = Inr monty"
    and started: "start sb monty
           (if merged_vars (state self) variables \<noteq> [] then Some (merged_vars (state self) variables)
            else None)
           (limits self) = (out, Inr progress)"
    and completed: "reaches texc sb (all_tools (tools self)) (output_fields self)
           (state self, progress, out) (st, MontyComplete v, stdout_parts)"
  shows "execute texc sb self code variables =
           Some (self\<lparr>state := st\<rparr>,
                 Inr (if stdout_parts \<noteq> [] then PyStr (concat stdout_parts) else PyNone))
       \<and> PyNone \<noteq> PyStr []
       \<and> (\<exists>ext. stdout_parts = out @ ext)
       \<and> (\<forall>c c'. execute_step texc sb (all_tools (tools self)) (output_fields self) c = Inr c' \<longrightarrow>
             (\<exists>fn args kwargs h result.
                 fst (snd c) = MontySnapshot fn args kwargs h
               \<and> snd (snd c') = snd (snd c) @ fst (resume sb h result)))"
proof -
  have "execute_step texc sb (all_tools (tools self)) (output_fields self)
          (st, MontyComplete v, stdout_parts)
        = Inl (st, Inr (if stdout_parts \<noteq> [] then PyStr (concat stdout_parts) else PyNone))"
    by (simp add: execute_step_def)
  then have run: "execute texc sb self code variables =
           Some (self\<lparr>state := st\<rparr>,
                 Inr (if stdout_parts \<noteq> [] then PyStr (concat stdout_parts) else PyNone))"
    by (rule execute_ends_at [OF built started completed])
  from reaches_stdout_parts [OF completed]
  have ext: "\<exists>ext. stdout_parts = out @ ext" by simp
  from run ext execute_step_pass_parts show ?thesis by blast
qed

theorem completion_returns_captured_text_witness:
  "execute plain_texc (scripted demo_programs) demo_interp ''print(1 + 2)'' None
     = Some (demo_interp, Inr (PyStr (''3'' @ [CHR 0x0A])))
   \<and> execute plain_texc (scripted demo_programs) demo_interp ''pass'' None
     = Some (demo_interp, Inr PyNone)
   \<and> execute plain_texc (scripted demo_programs) demo_interp ''print(end=str())'' None
     = Some (demo_interp, Inr (PyStr []))"
proof -
  let ?sb = "scripted demo_programs"
  have mv: "merged_vars (state demo_interp) None = []"
    by (simp add: merged_vars_def demo_interp_def init_def dict_update_def)
  have st: "demo_interp\<lparr>state := []\<rparr> = demo_interp" "state demo_interp = []"
    by (simp_all add: demo_interp_def init_def)
  have built: "Monty ?sb code (map fst (merged_vars (state demo_interp) None))
             (map fst (all_tools (tools demo_interp))) (type_check demo_interp)
             (type_check_stubs demo_interp) = Inr acts"
    if "map_of demo_programs code = Some (Inr acts)" for code acts
    using that by (simp add: scripted_def)
  have started: "start ?sb acts
           (if merged_vars (state demo_interp) None \<noteq> []
            then Some (merged_vars (state demo_interp) None) else None)
           (limits demo_interp) = run_script [] acts" for acts
    by (simp add: mv scripted_def)
  have p1: "map_of demo_programs ''print(1 + 2)'' = Some (Inr [Emit ''3'', Emit [CHR 0x0A]])"
    and p2: "map_of demo_programs ''pass'' = Some (Inr [])"
    and p3: "map_of demo_programs ''print(end=str())'' = Some (Inr [Emit []])"
    by (simp_all add: demo_programs_def)
  have r1: "run_script [] [Emit ''3'', Emit [CHR 0x0A]] = ([''3'', [CHR 0x0A]], Inr (MontyComplete PNone))"
    and r2: "run_script [] [] = ([], Inr (MontyComplete PNone))"
    and r3: "run_script [] [Emit []] = ([[]], Inr (MontyComplete PNone))"
    by simp_all
  from completion_returns_captured_text
         [OF built [OF p1] started [of "[Emit ''3'', Emit [CHR 0x0A]]", unfolded r1], of plain_texc "[]" PNone "[''3'', [CHR 0x0A]]"]
  have a: "execute plain_texc ?sb demo_interp ''print(1 + 2)'' None
     = Some (demo_interp, Inr (PyStr (''3'' @ [CHR 0x0A])))"
    by (simp add: st reaches.here)
  from completion_returns_captured_text
         [OF built [OF p2] started [of "[]", unfolded r2], of plain_texc "[]" PNone "[]"]
  have b: "execute plain_texc ?sb demo_interp ''pass'' None = Some (demo_interp, Inr PyNone)"
    by (simp add: st reaches.here)
  from completion_returns_captured_text
         [OF built [OF p3] started [of "[Emit []]", unfolded r3], of plain_texc "[]" PNone "[[]]"]
  have c: "execute plain_texc ?sb demo_interp ''print(end=str())'' None
     = Some (demo_interp, Inr (PyStr []))"
    by (simp add: st reaches.here)
  from a b c show ?thesis by blast
qed

end
